theory Spec2Isabelle
  imports Complex_Main
begin

section \<open>Per-user request admission: sliding window and throttling\<close>

text \<open>
  The two limiters of the repository are embedded as state-passing functions. Every
  call of \<^verbatim>\<open>time.time()\<close> becomes an argument, in the order in which the method reads
  the clock, so a method that reads the clock twice takes two readings. Times are Python
  floats; they are modelled as real numbers, so the arithmetic below is exact and a
  statement about a computed duration is a statement about the ideal value.
  A \<^verbatim>\<open>deque\<close> is a list whose head is the left end: \<^verbatim>\<open>popleft\<close> drops the head and
  \<^verbatim>\<open>append\<close> adds at the back. A dictionary is a partial map.
\<close>

subsection \<open>SlidingWindowRateLimiter (rate\_limiter.py)\<close>

datatype py_error = IndexError

record SlidingWindowRateLimiter =
  window_size :: int
  max_requests :: int
  users_requests :: "string \<rightharpoonup> real list"

text \<open>The constructor: both parameters are stored as given, with no validation.\<close>

definition sw_init :: "int \<Rightarrow> int \<Rightarrow> SlidingWindowRateLimiter" where
  "sw_init ws mr = \<lparr>window_size = ws, max_requests = mr, users_requests = Map.empty\<rparr>"

text \<open>
  The loop of \<^verbatim>\<open>_cleanup_window\<close>:
  \<^verbatim>\<open>while window and window[0] <= current_time - self.window_size: window.popleft()\<close>,
  with \<open>bound\<close> standing for \<^verbatim>\<open>current_time - self.window_size\<close>.
\<close>

fun popleft_expired :: "real \<Rightarrow> real list \<Rightarrow> real list" where
  "popleft_expired bound [] = []"
| "popleft_expired bound (t # window) =
     (if t \<le> bound then popleft_expired bound window else t # window)"

definition sw_cleanup_window ::
  "SlidingWindowRateLimiter \<Rightarrow> string \<Rightarrow> real \<Rightarrow> SlidingWindowRateLimiter" where
  "sw_cleanup_window s user_id current_time =
     (case users_requests s user_id of
        None \<Rightarrow> s
      | Some window \<Rightarrow>
          (let window' = popleft_expired (current_time - of_int (window_size s)) window
           in if window' = []
              then s\<lparr>users_requests := (users_requests s)(user_id := None)\<rparr>
              else s\<lparr>users_requests := (users_requests s)(user_id \<mapsto> window')\<rparr>))"

text \<open>\<^verbatim>\<open>can_send_message\<close> reads the clock once, prunes, and compares the count.\<close>

definition sw_can_send_message ::
  "SlidingWindowRateLimiter \<Rightarrow> string \<Rightarrow> real \<Rightarrow> bool \<times> SlidingWindowRateLimiter" where
  "sw_can_send_message s user_id current_time =
     (let s' = sw_cleanup_window s user_id current_time
      in (case users_requests s' user_id of
            None \<Rightarrow> True
          | Some window \<Rightarrow> int (length window) < max_requests s', s'))"

text \<open>
  \<^verbatim>\<open>record_message\<close> reads the clock (\<open>current_time\<close>), prunes with it, and then calls
  \<^verbatim>\<open>can_send_message\<close>, which reads the clock again (\<open>check_time\<close>) and prunes again.
  The timestamp appended is the first reading.
\<close>

definition sw_record_message ::
  "SlidingWindowRateLimiter \<Rightarrow> string \<Rightarrow> real \<Rightarrow> real \<Rightarrow> bool \<times> SlidingWindowRateLimiter" where
  "sw_record_message s user_id current_time check_time =
     (let s1 = sw_cleanup_window s user_id current_time;
          (ok, s2) = sw_can_send_message s1 user_id check_time
      in if ok
         then (let window = (case users_requests s2 user_id of None \<Rightarrow> [] | Some w \<Rightarrow> w)
               in (True, s2\<lparr>users_requests := (users_requests s2)(user_id \<mapsto> window @ [current_time])\<rparr>))
         else (False, s2))"

text \<open>
  \<^verbatim>\<open>time_until_next_allowed\<close>: \<^verbatim>\<open>window[0]\<close> raises IndexError on an empty deque, which is
  a branch of the model.
\<close>

definition sw_time_until_next_allowed ::
  "SlidingWindowRateLimiter \<Rightarrow> string \<Rightarrow> real \<Rightarrow> (py_error + real) \<times> SlidingWindowRateLimiter" where
  "sw_time_until_next_allowed s user_id current_time =
     (case users_requests s user_id of
        None \<Rightarrow> (Inr 0, s)
      | Some _ \<Rightarrow>
          (let s' = sw_cleanup_window s user_id current_time
           in case users_requests s' user_id of
                None \<Rightarrow> (Inr 0, s')
              | Some window \<Rightarrow>
                  if int (length window) < max_requests s' then (Inr 0, s')
                  else (case window of
                          [] \<Rightarrow> (Inl IndexError, s')
                        | earliest # _ \<Rightarrow>
                            (Inr (max (of_int (window_size s') - (current_time - earliest)) 0), s'))))"

subsection \<open>ThrottlingRateLimiter (throlling.py)\<close>

record ThrottlingRateLimiter =
  min_interval :: real
  user_last_message_time :: "string \<rightharpoonup> real"

definition thr_init :: "real \<Rightarrow> ThrottlingRateLimiter" where
  "thr_init mi = \<lparr>min_interval = mi, user_last_message_time = Map.empty\<rparr>"

definition thr_can_send_message :: "ThrottlingRateLimiter \<Rightarrow> string \<Rightarrow> real \<Rightarrow> bool" where
  "thr_can_send_message s user_id current_time =
     (case user_last_message_time s user_id of
        None \<Rightarrow> True
      | Some last_time \<Rightarrow> current_time - last_time \<ge> min_interval s)"

text \<open>
  \<^verbatim>\<open>record_message\<close>: the check reads the clock inside \<^verbatim>\<open>can_send_message\<close>
  (\<open>check_time\<close>); the stored value is a second reading (\<open>store_time\<close>).
\<close>

definition thr_record_message ::
  "ThrottlingRateLimiter \<Rightarrow> string \<Rightarrow> real \<Rightarrow> real \<Rightarrow> bool \<times> ThrottlingRateLimiter" where
  "thr_record_message s user_id check_time store_time =
     (if thr_can_send_message s user_id check_time
      then (True, s\<lparr>user_last_message_time := (user_last_message_time s)(user_id \<mapsto> store_time)\<rparr>)
      else (False, s))"

definition thr_time_until_next_allowed :: "ThrottlingRateLimiter \<Rightarrow> string \<Rightarrow> real \<Rightarrow> real" where
  "thr_time_until_next_allowed s user_id current_time =
     (case user_last_message_time s user_id of
        None \<Rightarrow> 0
      | Some last_time \<Rightarrow> max 0 (min_interval s - (current_time - last_time)))"

subsection \<open>Runs of calls\<close>

text \<open>
  A run of \<^verbatim>\<open>record_message\<close> calls for one user: each call comes with its two clock
  readings, and the run returns the decisions in order together with the final state.
\<close>

fun sw_record_all ::
  "SlidingWindowRateLimiter \<Rightarrow> string \<Rightarrow> (real \<times> real) list \<Rightarrow> bool list \<times> SlidingWindowRateLimiter" where
  "sw_record_all s user_id [] = ([], s)"
| "sw_record_all s user_id ((current_time, check_time) # rest) =
     (let (ok, s') = sw_record_message s user_id current_time check_time;
          (oks, s'') = sw_record_all s' user_id rest
      in (ok # oks, s''))"

text \<open>
  All clock readings of a run lie in the half-open span of length \<open>ws\<close> that starts at
  \<open>start\<close>: any two of them are less than \<open>ws\<close> seconds apart.
\<close>

definition within_span :: "real \<Rightarrow> int \<Rightarrow> (real \<times> real) list \<Rightarrow> bool" where
  "within_span start ws readings =
     list_all (\<lambda>(current_time, check_time).
        start \<le> current_time \<and> current_time < start + of_int ws \<and>
        start \<le> check_time \<and> check_time < start + of_int ws) readings"

text \<open>
  The public interface as data: a call names the method, the user and the clock readings
  the method takes. \<open>sw_run\<close> applies a sequence of calls and keeps the state, so
  \<open>sw_run (sw_init ws mr) calls\<close> ranges over the states a limiter can be in.
\<close>

datatype sw_call =
  CanSend string real
| Record string real real
| WaitTime string real

fun sw_step :: "SlidingWindowRateLimiter \<Rightarrow> sw_call \<Rightarrow> SlidingWindowRateLimiter" where
  "sw_step s (CanSend user_id t) = snd (sw_can_send_message s user_id t)"
| "sw_step s (Record user_id t1 t2) = snd (sw_record_message s user_id t1 t2)"
| "sw_step s (WaitTime user_id t) = snd (sw_time_until_next_allowed s user_id t)"

fun sw_run :: "SlidingWindowRateLimiter \<Rightarrow> sw_call list \<Rightarrow> SlidingWindowRateLimiter" where
  "sw_run s [] = s"
| "sw_run s (c # calls) = sw_run (sw_step s c) calls"



subsection \<open>Auxiliary notions\<close>

text \<open>What one cleanup pass with bound \<open>current_time - window_size\<close> does to a user's entry.\<close>

fun pruned :: "real \<Rightarrow> real list option \<Rightarrow> real list option" where
  "pruned bound None = None"
| "pruned bound (Some window) =
     (if popleft_expired bound window = [] then None
      else Some (popleft_expired bound window))"

text \<open>
  The one-snapshot variant of \<^verbatim>\<open>record_message\<close> that the specification describes: read
  the time once, prune, decide as \<^verbatim>\<open>can_send_message\<close> does, and append that same time.
  It is not in the source; it is what the source is compared with.
\<close>

definition sw_record_snapshot ::
  "SlidingWindowRateLimiter \<Rightarrow> string \<Rightarrow> real \<Rightarrow> bool \<times> SlidingWindowRateLimiter" where
  "sw_record_snapshot s user_id now =
     (let s' = sw_cleanup_window s user_id now
      in case users_requests s' user_id of
           None \<Rightarrow> (True, s'\<lparr>users_requests := (users_requests s')(user_id \<mapsto> [now])\<rparr>)
         | Some window \<Rightarrow>
             if int (length window) < max_requests s'
             then (True, s'\<lparr>users_requests := (users_requests s')(user_id \<mapsto> window @ [now])\<rparr>)
             else (False, s'))"






text \<open>The timestamps of an entry, none when the user has no entry.\<close>

fun entries :: "real list option \<Rightarrow> real list" where
  "entries None = []"
| "entries (Some window) = window"

section \<open>The pruning loop\<close>

lemma popleft_expired_dropWhile: "popleft_expired b w = dropWhile (\<lambda>t. t \<le> b) w"
  by (induction w) auto

lemma popleft_expired_twice:
  "b1 \<le> b2 \<Longrightarrow> popleft_expired b2 (popleft_expired b1 w) = popleft_expired b2 w"
  by (induction w) auto

lemma popleft_expired_Nil_mono:
  "b1 \<le> b2 \<Longrightarrow> popleft_expired b1 w = [] \<Longrightarrow> popleft_expired b2 w = []"
  by (induction w) (auto split: if_splits)


lemma popleft_expired_split:
  "\<exists>pre. w = pre @ popleft_expired b w \<and> (\<forall>t\<in>set pre. t \<le> b)"
proof (induction w)
  case Nil
  show ?case by simp
next
  case (Cons a w)
  show ?case
  proof (cases "a \<le> b")
    case True
    from Cons obtain pre where "w = pre @ popleft_expired b w" "\<forall>t\<in>set pre. t \<le> b" by blast
    with True have "a # w = (a # pre) @ popleft_expired b (a # w) \<and> (\<forall>t\<in>set (a # pre). t \<le> b)"
      by simp
    then show ?thesis by blast
  next
    case False
    then have "a # w = [] @ popleft_expired b (a # w) \<and> (\<forall>t\<in>set ([]::real list). t \<le> b)"
      by simp
    then show ?thesis by blast
  qed
qed





lemma popleft_expired_append_fresh:
  "\<forall>t\<in>set new. b < t \<Longrightarrow> popleft_expired b (old @ new) = popleft_expired b old @ new"
proof (induction old)
  case Nil
  then show ?case by (cases new) auto
next
  case (Cons a old)
  then show ?case by simp
qed

lemma pruned_twice: "b1 \<le> b2 \<Longrightarrow> pruned b2 (pruned b1 e) = pruned b2 e"
  by (cases e) (auto simp: popleft_expired_twice popleft_expired_Nil_mono)

lemma pruned_nonempty: "pruned b e \<noteq> Some []"
  by (cases e) auto

section \<open>Closed forms of the sliding-window operations\<close>

lemma sw_cleanup_window_eq:
  "sw_cleanup_window s u t =
     s\<lparr>users_requests :=
         (users_requests s)(u := pruned (t - of_int (window_size s)) (users_requests s u))\<rparr>"
  by (cases "users_requests s u") (simp_all add: sw_cleanup_window_def Let_def fun_upd_idem)

lemma sw_cleanup_window_twice:
  "t1 \<le> t2 \<Longrightarrow> sw_cleanup_window (sw_cleanup_window s u t1) u t2 = sw_cleanup_window s u t2"
  by (simp add: sw_cleanup_window_eq pruned_twice)

lemma sw_can_send_message_eq:
  "sw_can_send_message s u t =
     (let e = pruned (t - of_int (window_size s)) (users_requests s u)
      in ((case e of None \<Rightarrow> True | Some w \<Rightarrow> int (length w) < max_requests s),
          s\<lparr>users_requests := (users_requests s)(u := e)\<rparr>))"
  by (simp add: sw_can_send_message_def sw_cleanup_window_eq Let_def cong: option.case_cong)

lemma sw_record_message_eq:
  "sw_record_message s u t1 t2 =
     (let e = pruned (t2 - of_int (window_size s))
                (pruned (t1 - of_int (window_size s)) (users_requests s u));
          ok = (case e of None \<Rightarrow> True | Some w \<Rightarrow> int (length w) < max_requests s)
      in (ok, s\<lparr>users_requests := (users_requests s)
                  (u := if ok then Some ((case e of None \<Rightarrow> [] | Some w \<Rightarrow> w) @ [t1]) else e)\<rparr>))"
  by (simp add: sw_record_message_def sw_can_send_message_eq sw_cleanup_window_eq Let_def
        cong: option.case_cong)

lemma sw_time_until_next_allowed_eq:
  "sw_time_until_next_allowed s u t =
     (let e = pruned (t - of_int (window_size s)) (users_requests s u)
      in (Inr (case e of None \<Rightarrow> 0
               | Some w \<Rightarrow> if int (length w) < max_requests s then 0
                           else max (of_int (window_size s) - (t - hd w)) 0),
          s\<lparr>users_requests := (users_requests s)(u := e)\<rparr>))"
proof (cases "users_requests s u")
  case None
  then show ?thesis
    by (simp add: sw_time_until_next_allowed_def Let_def fun_upd_idem)
next
  case (Some w0)
  show ?thesis
  proof (cases "pruned (t - of_int (window_size s)) (users_requests s u)")
    case None
    with Some show ?thesis
      by (simp add: sw_time_until_next_allowed_def sw_cleanup_window_eq Let_def)
  next
    case (Some w)
    with pruned_nonempty[of "t - of_int (window_size s)" "users_requests s u"]
    obtain a r where "w = a # r" by (cases w) auto
    with Some \<open>users_requests s u = Some w0\<close> show ?thesis
      by (simp add: sw_time_until_next_allowed_def sw_cleanup_window_eq Let_def)
  qed
qed

lemma sw_record_snapshot_eq:
  "sw_record_snapshot s u now =
     (let e = pruned (now - of_int (window_size s)) (users_requests s u);
          ok = (case e of None \<Rightarrow> True | Some w \<Rightarrow> int (length w) < max_requests s)
      in (ok, s\<lparr>users_requests := (users_requests s)
                  (u := if ok then Some ((case e of None \<Rightarrow> [] | Some w \<Rightarrow> w) @ [now]) else e)\<rparr>))"
  by (cases "pruned (now - of_int (window_size s)) (users_requests s u)")
     (simp_all add: sw_record_snapshot_def sw_cleanup_window_eq Let_def fun_upd_idem)

lemma pruned_idem: "pruned b (pruned b e) = pruned b e"
  by (simp add: pruned_twice)

section \<open>Invariants of reachable states\<close>




















section \<open>Calls within one span\<close>

lemma entries_pruned: "entries (pruned b e) = popleft_expired b (entries e)"
  by (cases e) auto

lemma pruned_None_iff: "pruned b e = None \<longleftrightarrow> popleft_expired b (entries e) = []"
  by (cases e) auto

lemma sw_record_message_entries:
  "sw_record_message s u t1 t2 =
     (let w2 = popleft_expired (t2 - of_int (window_size s))
                 (popleft_expired (t1 - of_int (window_size s)) (entries (users_requests s u)));
          ok = (w2 = [] \<or> int (length w2) < max_requests s)
      in (ok, s\<lparr>users_requests := (users_requests s)
                  (u := if ok then Some (w2 @ [t1]) else Some w2)\<rparr>))"
proof -
  let ?e = "pruned (t2 - of_int (window_size s))
              (pruned (t1 - of_int (window_size s)) (users_requests s u))"
  have w2: "entries ?e = popleft_expired (t2 - of_int (window_size s))
                 (popleft_expired (t1 - of_int (window_size s)) (entries (users_requests s u)))"
    by (simp add: entries_pruned)
  show ?thesis
  proof (cases ?e)
    case None
    with w2 show ?thesis
      by (simp add: sw_record_message_eq Let_def)
  next
    case (Some w)
    with pruned_nonempty[of "t2 - of_int (window_size s)"] have "w \<noteq> []" by metis
    with Some w2 show ?thesis
      by (simp add: sw_record_message_eq Let_def)
  qed
qed

lemma sw_record_message_in_span:
  assumes win: "entries (users_requests s u) = old @ new"
    and fresh: "\<forall>t\<in>set new. start \<le> t"
    and t1: "t1 < start + of_int (window_size s)"
    and t2: "t2 < start + of_int (window_size s)"
    and cap: "1 \<le> max_requests s"
  shows "\<exists>old'. entries (users_requests (snd (sw_record_message s u t1 t2)) u) =
            old' @ (new @ (if fst (sw_record_message s u t1 t2) then [t1] else [])) \<and>
          (old = [] \<longrightarrow> old' = []) \<and>
          (fst (sw_record_message s u t1 t2) \<longleftrightarrow>
             int (length old' + length new) < max_requests s)"
proof -
  let ?b1 = "t1 - of_int (window_size s)" and ?b2 = "t2 - of_int (window_size s)"
  let ?old' = "popleft_expired ?b2 (popleft_expired ?b1 old)"
  let ?w2 = "popleft_expired ?b2 (popleft_expired ?b1 (entries (users_requests s u)))"
  from fresh t1 have f1: "\<forall>t\<in>set new. ?b1 < t" by auto
  from fresh t2 have f2: "\<forall>t\<in>set new. ?b2 < t" by auto
  have w2: "?w2 = ?old' @ new"
    by (simp add: win popleft_expired_append_fresh[OF f1] popleft_expired_append_fresh[OF f2])
  have ok: "fst (sw_record_message s u t1 t2) \<longleftrightarrow> int (length ?old' + length new) < max_requests s"
    using cap by (auto simp: sw_record_message_entries Let_def w2)
  have after: "entries (users_requests (snd (sw_record_message s u t1 t2)) u) =
      ?old' @ (new @ (if fst (sw_record_message s u t1 t2) then [t1] else []))"
    by (simp add: sw_record_message_entries Let_def w2)
  have "old = [] \<longrightarrow> ?old' = []" by simp
  with after ok show ?thesis by blast
qed

lemma sw_record_message_config:
  "window_size (snd (sw_record_message s u t1 t2)) = window_size s \<and>
   max_requests (snd (sw_record_message s u t1 t2)) = max_requests s"
  by (simp add: sw_record_message_eq Let_def)

lemma sw_record_all_Cons:
  "fst (sw_record_all s u ((t1, t2) # rest)) =
     fst (sw_record_message s u t1 t2) # fst (sw_record_all (snd (sw_record_message s u t1 t2)) u rest)"
  by (simp add: split_beta Let_def)

lemma sw_record_all_length: "length (fst (sw_record_all s u rs)) = length rs"
proof (induction rs arbitrary: s)
  case Nil
  show ?case by simp
next
  case (Cons r rest)
  obtain t1 t2 where "r = (t1, t2)" by (cases r)
  with Cons show ?case by (simp add: sw_record_all_Cons del: sw_record_all.simps)
qed

lemma sw_record_all_in_span:
  assumes "entries (users_requests s u) = old @ new"
    and "\<forall>t\<in>set new. start \<le> t"
    and "within_span start (window_size s) rs"
    and "1 \<le> max_requests s"
  shows "(\<forall>i<length rs. fst (sw_record_all s u rs) ! i \<longrightarrow>
            int (length new + length (filter (\<lambda>ok. ok) (take i (fst (sw_record_all s u rs)))))
              < max_requests s) \<and>
         (int (length new) \<le> max_requests s \<longrightarrow>
            int (length new + length (filter (\<lambda>ok. ok) (fst (sw_record_all s u rs))))
              \<le> max_requests s) \<and>
         (old = [] \<longrightarrow>
            (\<forall>i<length rs. fst (sw_record_all s u rs) ! i \<longleftrightarrow>
               int (length new + i) < max_requests s))"
  using assms
proof (induction rs arbitrary: s old new)
  case Nil
  then show ?case by simp
next
  case (Cons r rest)
  obtain t1 t2 where r: "r = (t1, t2)" by (cases r)
  let ?ok = "fst (sw_record_message s u t1 t2)"
  let ?s' = "snd (sw_record_message s u t1 t2)"
  let ?new' = "new @ (if ?ok then [t1] else [])"
  let ?oks' = "fst (sw_record_all ?s' u rest)"
  let ?M = "max_requests s"
  from Cons.prems(3) r have span: "start \<le> t1" "t1 < start + of_int (window_size s)"
      "t2 < start + of_int (window_size s)"
    and rest: "within_span start (window_size s) rest"
    by (simp_all add: within_span_def)
  from sw_record_message_in_span[OF Cons.prems(1,2) span(2,3) Cons.prems(4)]
  obtain old' where win': "entries (users_requests ?s' u) = old' @ ?new'"
    and empty': "old = [] \<longrightarrow> old' = []"
    and ok: "?ok \<longleftrightarrow> int (length old' + length new) < ?M"
    by blast
  have cfg: "window_size ?s' = window_size s" "max_requests ?s' = ?M"
    by (simp_all add: sw_record_message_config)
  from Cons.prems(2) span(1) have fresh': "\<forall>t\<in>set ?new'. start \<le> t" by auto
  from rest cfg have rest': "within_span start (window_size ?s') rest" by simp
  from Cons.prems(4) cfg have cap': "1 \<le> max_requests ?s'" by simp
  note IH = Cons.IH[OF win' fresh' rest' cap', unfolded cfg]
  have oks: "fst (sw_record_all s u (r # rest)) = ?ok # ?oks'"
    unfolding r by (rule sw_record_all_Cons)
  have len': "length ?new' = length new + (if ?ok then 1 else 0)" by simp
  have A: "fst (sw_record_all s u (r # rest)) ! i \<longrightarrow>
            int (length new + length (filter (\<lambda>ok. ok) (take i (fst (sw_record_all s u (r # rest))))))
              < ?M" if "i < length (r # rest)" for i
  proof (cases i)
    case 0
    with ok show ?thesis unfolding oks by auto
  next
    case (Suc j)
    with that have j: "j < length rest" by simp
    from IH j have "?oks' ! j \<longrightarrow>
        int (length ?new' + length (filter (\<lambda>ok. ok) (take j ?oks'))) < ?M"
      by blast
    with Suc show ?thesis unfolding oks len' by auto
  qed
  have B: "int (length new + length (filter (\<lambda>ok. ok) (fst (sw_record_all s u (r # rest))))) \<le> ?M"
    if le: "int (length new) \<le> ?M"
  proof -
    from ok le have "int (length ?new') \<le> ?M" by auto
    with IH have "int (length ?new' + length (filter (\<lambda>ok. ok) ?oks')) \<le> ?M" by blast
    then show ?thesis unfolding oks len' by auto
  qed
  have C: "fst (sw_record_all s u (r # rest)) ! i \<longleftrightarrow> int (length new + i) < ?M"
    if e: "old = []" and i: "i < length (r # rest)" for i
  proof (cases i)
    case 0
    with ok e empty' show ?thesis unfolding oks by auto
  next
    case (Suc j)
    with i have j: "j < length rest" by simp
    from e empty' have "old' = []" by simp
    with IH j have "?oks' ! j \<longleftrightarrow> int (length ?new' + j) < ?M" by blast
    moreover from ok \<open>old' = []\<close> have "?ok \<longleftrightarrow> int (length new) < ?M" by simp
    ultimately show ?thesis using Suc unfolding oks len' by auto
  qed
  from A B C show ?case by blast
qed

section \<open>Per-user isolation\<close>

text \<open>
  Claim C10. Every public operation called for user \<open>u\<close> leaves the stored state of every
  other user \<open>v\<close> as it was. In the sliding-window limiter all three methods may prune, and
  they prune only the caller's entry. In the throttling limiter only \<^verbatim>\<open>record_message\<close>
  assigns to the dictionary; \<^verbatim>\<open>can_send_message\<close> and \<^verbatim>\<open>time_until_next_allowed\<close> assign
  nothing, which is why the model gives them no state to return.
\<close>

theorem per_user_isolation:
  "v \<noteq> u \<Longrightarrow>
     users_requests (snd (sw_can_send_message s u t)) v = users_requests s v \<and>
     users_requests (snd (sw_record_message s u t1 t2)) v = users_requests s v \<and>
     users_requests (snd (sw_time_until_next_allowed s u t)) v = users_requests s v \<and>
     user_last_message_time (snd (thr_record_message r u t1 t2)) v = user_last_message_time r v"
  by (simp add: sw_can_send_message_eq sw_record_message_eq sw_time_until_next_allowed_eq
        thr_record_message_def Let_def)

theorem per_user_isolation_witness:
  "''2'' \<noteq> ''1'' \<and>
   users_requests (snd (sw_can_send_message
      \<lparr>window_size = 10, max_requests = 1, users_requests = [''1'' \<mapsto> [0], ''2'' \<mapsto> [3]]\<rparr>
      ''1'' 12)) ''2'' = Some [3] \<and>
   users_requests (snd (sw_record_message
      \<lparr>window_size = 10, max_requests = 1, users_requests = [''1'' \<mapsto> [0], ''2'' \<mapsto> [3]]\<rparr>
      ''1'' 12 13)) ''2'' = Some [3] \<and>
   users_requests (snd (sw_time_until_next_allowed
      \<lparr>window_size = 10, max_requests = 1, users_requests = [''1'' \<mapsto> [0], ''2'' \<mapsto> [3]]\<rparr>
      ''1'' 12)) ''2'' = Some [3] \<and>
   user_last_message_time (snd (thr_record_message
      \<lparr>min_interval = 10, user_last_message_time = [''1'' \<mapsto> 0, ''2'' \<mapsto> 3]\<rparr>
      ''1'' 12 13)) ''2'' = Some 3"
proof -
  have h: "''2'' \<noteq> ''1''" by simp
  show ?thesis
    using h per_user_isolation [OF h,
      of "\<lparr>window_size = 10, max_requests = 1, users_requests = [''1'' \<mapsto> [0], ''2'' \<mapsto> [3]]\<rparr>"
         12 12 13
         "\<lparr>min_interval = 10, user_last_message_time = [''1'' \<mapsto> 0, ''2'' \<mapsto> 3]\<rparr>"]
    by simp
qed

section \<open>First admission does not look at the capacity\<close>

text \<open>
  Claim C9. A user absent from the mapping is admitted by the no-entry branch of
  \<^verbatim>\<open>can_send_message\<close>, before any count is compared: for every configuration the call
  returns true and stores the one-element sequence holding the first clock reading. With
  \<open>max_requests = 0\<close> the stored sequence is then longer than the nominal capacity.
\<close>

theorem first_admission_ignores_capacity:
  "(users_requests s u = None \<longrightarrow>
      sw_record_message s u t1 t2 =
        (True, s\<lparr>users_requests := (users_requests s)(u \<mapsto> [t1])\<rparr>)) \<and>
   fst (sw_record_message (sw_init ws 0) u t1 t2) \<and>
   (\<exists>w. users_requests (snd (sw_record_message (sw_init ws 0) u t1 t2)) u = Some w \<and>
        max_requests (snd (sw_record_message (sw_init ws 0) u t1 t2)) < int (length w))"
  by (simp add: sw_record_message_eq sw_init_def Let_def)

theorem first_admission_ignores_capacity_witness:
  "users_requests (sw_init 10 0) ''1'' = None \<and>
   sw_record_message (sw_init 10 0) ''1'' 3 4 =
     (True, (sw_init 10 0)\<lparr>users_requests := (users_requests (sw_init 10 0))(''1'' \<mapsto> [3])\<rparr>)"
proof -
  have h: "users_requests (sw_init 10 0) ''1'' = None" by (simp add: sw_init_def)
  show ?thesis
    using h first_admission_ignores_capacity [of "sw_init 10 0" "''1''" 3 4 10] by simp
qed

section \<open>The wait time\<close>


section \<open>Unknown users\<close>

text \<open>
  Claim C8. A user with no entry in the mapping gets \<open>True\<close> from \<^verbatim>\<open>can_send_message\<close>,
  \<open>True\<close> from \<^verbatim>\<open>record_message\<close> and \<open>0\<close> from \<^verbatim>\<open>time_until_next_allowed\<close>, in both
  limiters. For the sliding window the same holds for a user whose entry is gone once the
  call has pruned it (every stored timestamp has expired at the time of the call).
\<close>

theorem unknown_user_default:
  "(users_requests s u = None \<longrightarrow>
      fst (sw_can_send_message s u t) \<and> fst (sw_record_message s u t t2) \<and>
      fst (sw_time_until_next_allowed s u t) = Inr 0) \<and>
   (users_requests (sw_cleanup_window s u t) u = None \<longrightarrow>
      fst (sw_can_send_message s u t) \<and> fst (sw_record_message s u t t2) \<and>
      fst (sw_time_until_next_allowed s u t) = Inr 0) \<and>
   (user_last_message_time r u = None \<longrightarrow>
      thr_can_send_message r u t \<and> fst (thr_record_message r u t t2) \<and>
      thr_time_until_next_allowed r u t = 0)"
  by (simp add: sw_can_send_message_eq sw_record_message_eq sw_time_until_next_allowed_eq
        sw_cleanup_window_eq thr_can_send_message_def thr_record_message_def
        thr_time_until_next_allowed_def Let_def)

theorem unknown_user_default_witness:
  "users_requests (sw_init 10 1) ''7'' = None \<and>
   fst (sw_can_send_message (sw_init 10 1) ''7'' 4) \<and>
   fst (sw_record_message (sw_init 10 1) ''7'' 4 5) \<and>
   fst (sw_time_until_next_allowed (sw_init 10 1) ''7'' 4) = Inr 0 \<and>
   users_requests (sw_cleanup_window
      \<lparr>window_size = 10, max_requests = 1, users_requests = [''7'' \<mapsto> [0]]\<rparr> ''7'' 11) ''7'' = None \<and>
   fst (sw_can_send_message
      \<lparr>window_size = 10, max_requests = 1, users_requests = [''7'' \<mapsto> [0]]\<rparr> ''7'' 11) \<and>
   fst (sw_record_message
      \<lparr>window_size = 10, max_requests = 1, users_requests = [''7'' \<mapsto> [0]]\<rparr> ''7'' 11 12) \<and>
   fst (sw_time_until_next_allowed
      \<lparr>window_size = 10, max_requests = 1, users_requests = [''7'' \<mapsto> [0]]\<rparr> ''7'' 11) = Inr 0 \<and>
   user_last_message_time (thr_init 10) ''7'' = None \<and>
   thr_can_send_message (thr_init 10) ''7'' 4 \<and>
   fst (thr_record_message (thr_init 10) ''7'' 4 5) \<and>
   thr_time_until_next_allowed (thr_init 10) ''7'' 4 = 0"
proof -
  let ?s = "\<lparr>window_size = 10, max_requests = 1, users_requests = [''7'' \<mapsto> [0::real]]\<rparr>"
  have h1: "users_requests (sw_init 10 1) ''7'' = None" by (simp add: sw_init_def)
  have h2: "users_requests (sw_cleanup_window ?s ''7'' 11) ''7'' = None"
    by (simp add: sw_cleanup_window_def)
  have h3: "user_last_message_time (thr_init 10) ''7'' = None" by (simp add: thr_init_def)
  from h1 h2 h3
    unknown_user_default [of "sw_init 10 1" "''7''" 4 5 "thr_init 10"]
    unknown_user_default [of ?s "''7''" 11 12 "thr_init 10"]
  show ?thesis by blast
qed

section \<open>Throttling: the admission condition\<close>



section \<open>Rejected calls\<close>

text \<open>
  Claim C6. A \<^verbatim>\<open>record_message\<close> call that returns false appends nothing. In the
  sliding-window limiter the state it leaves is the state after its two pruning passes:
  the user's sequence afterwards is the sequence before with expired timestamps removed
  from the front. Every \<^verbatim>\<open>time_until_next_allowed\<close> at a later time \<open>t3\<close> then returns what it
  would have returned without the rejected call (and leaves the same state). In the
  throttling limiter a rejected call changes nothing at all.
\<close>

theorem no_mutation_on_rejection:
  "(\<not> fst (sw_record_message s u t1 t2) \<longrightarrow>
      snd (sw_record_message s u t1 t2) = sw_cleanup_window (sw_cleanup_window s u t1) u t2 \<and>
      (\<exists>before after expired.
          users_requests s u = Some before \<and>
          users_requests (snd (sw_record_message s u t1 t2)) u = Some after \<and>
          before = expired @ after)) \<and>
   (\<not> fst (sw_record_message s u t1 t2) \<and> t1 \<le> t3 \<and> t2 \<le> t3 \<longrightarrow>
      sw_time_until_next_allowed (snd (sw_record_message s u t1 t2)) u t3 =
      sw_time_until_next_allowed s u t3) \<and>
   (\<not> fst (thr_record_message r u t1 t2) \<longrightarrow>
      snd (thr_record_message r u t1 t2) = r \<and>
      thr_time_until_next_allowed (snd (thr_record_message r u t1 t2)) u t3 =
      thr_time_until_next_allowed r u t3)"
proof -
  let ?b1 = "t1 - of_int (window_size s)" and ?b2 = "t2 - of_int (window_size s)"
  let ?e = "pruned ?b2 (pruned ?b1 (users_requests s u))"
  have state: "snd (sw_record_message s u t1 t2) =
      sw_cleanup_window (sw_cleanup_window s u t1) u t2"
    if "\<not> fst (sw_record_message s u t1 t2)"
    using that by (simp add: sw_record_message_eq sw_cleanup_window_eq Let_def)
  have kept: "\<exists>before after expired.
          users_requests s u = Some before \<and>
          users_requests (snd (sw_record_message s u t1 t2)) u = Some after \<and>
          before = expired @ after"
    if rej: "\<not> fst (sw_record_message s u t1 t2)"
  proof -
    from rej obtain after where e: "?e = Some after"
      by (cases ?e) (simp_all add: sw_record_message_eq Let_def)
    then obtain before where b: "users_requests s u = Some before"
      by (cases "users_requests s u") simp_all
    from e b have after: "after = popleft_expired ?b2 (popleft_expired ?b1 before)"
      by (simp split: if_splits)
    obtain p1 where p1: "before = p1 @ popleft_expired ?b1 before"
      using popleft_expired_split[of before ?b1] by blast
    obtain p2 where p2: "popleft_expired ?b1 before = p2 @ after"
      using popleft_expired_split[of "popleft_expired ?b1 before" ?b2] after by blast
    from p1 p2 have "before = (p1 @ p2) @ after" by simp
    moreover from rej e have "users_requests (snd (sw_record_message s u t1 t2)) u = Some after"
      by (simp add: sw_record_message_eq Let_def)
    ultimately show ?thesis using b by blast
  qed
  have later: "sw_time_until_next_allowed (snd (sw_record_message s u t1 t2)) u t3 =
      sw_time_until_next_allowed s u t3"
    if "\<not> fst (sw_record_message s u t1 t2)" "t1 \<le> t3" "t2 \<le> t3"
    using that
    by (simp add: state sw_time_until_next_allowed_eq sw_cleanup_window_eq pruned_twice Let_def
          cong: option.case_cong if_cong)
  have thr: "snd (thr_record_message r u t1 t2) = r"
    if "\<not> fst (thr_record_message r u t1 t2)"
    using that by (simp add: thr_record_message_def split: if_splits)
  from state kept later thr show ?thesis by simp
qed

theorem no_mutation_on_rejection_witness:
  "\<not> fst (sw_record_message
        \<lparr>window_size = 10, max_requests = 1, users_requests = [''1'' \<mapsto> [0]]\<rparr> ''1'' 5 5) \<and>
   (5::real) \<le> 7 \<and>
   users_requests (snd (sw_record_message
        \<lparr>window_size = 10, max_requests = 1, users_requests = [''1'' \<mapsto> [0]]\<rparr> ''1'' 5 5)) ''1''
     = Some [0] \<and>
   fst (sw_time_until_next_allowed (snd (sw_record_message
        \<lparr>window_size = 10, max_requests = 1, users_requests = [''1'' \<mapsto> [0]]\<rparr> ''1'' 5 5)) ''1'' 7)
     = Inr 3 \<and>
   sw_time_until_next_allowed (snd (sw_record_message
        \<lparr>window_size = 10, max_requests = 1, users_requests = [''1'' \<mapsto> [0]]\<rparr> ''1'' 5 5)) ''1'' 7
     = sw_time_until_next_allowed
        \<lparr>window_size = 10, max_requests = 1, users_requests = [''1'' \<mapsto> [0]]\<rparr> ''1'' 7 \<and>
   \<not> fst (thr_record_message \<lparr>min_interval = 10, user_last_message_time = [''1'' \<mapsto> 0]\<rparr> ''1'' 5 5) \<and>
   snd (thr_record_message \<lparr>min_interval = 10, user_last_message_time = [''1'' \<mapsto> 0]\<rparr> ''1'' 5 5)
     = \<lparr>min_interval = 10, user_last_message_time = [''1'' \<mapsto> 0]\<rparr>"
proof -
  let ?s = "\<lparr>window_size = 10, max_requests = 1, users_requests = [''1'' \<mapsto> [0::real]]\<rparr>"
  let ?r = "\<lparr>min_interval = 10, user_last_message_time = [''1'' \<mapsto> 0]\<rparr>"
  note T = no_mutation_on_rejection [of ?s "''1''" 5 5 7 ?r]
  have h1: "\<not> fst (sw_record_message ?s ''1'' 5 5)"
    by (simp add: sw_record_message_eq Let_def)
  have h2: "\<not> fst (thr_record_message ?r ''1'' 5 5)"
    by (simp add: thr_record_message_def thr_can_send_message_def)
  have le: "(5::real) \<le> 7" by simp
  have v1: "users_requests (snd (sw_record_message ?s ''1'' 5 5)) ''1'' = Some [0]"
    by (simp add: sw_record_message_eq Let_def)
  have v2: "fst (sw_time_until_next_allowed (snd (sw_record_message ?s ''1'' 5 5)) ''1'' 7) = Inr 3"
    by (simp add: sw_record_message_eq sw_time_until_next_allowed_eq Let_def)
  from T h1 le have same: "sw_time_until_next_allowed (snd (sw_record_message ?s ''1'' 5 5)) ''1'' 7
      = sw_time_until_next_allowed ?s ''1'' 7"
    by blast
  from T h2 have unchanged: "snd (thr_record_message ?r ''1'' 5 5) = ?r"
    by blast
  from h1 le v1 v2 same h2 unchanged show ?thesis by blast
qed

section \<open>The two clock readings of record\_message\<close>

text \<open>
  Claim C3, as amended. \<^verbatim>\<open>record_message\<close> reads the clock twice: the admission check is
  made on the window as pruned at the second reading, and the timestamp appended is the
  first reading. Whenever the second pruning pass removes nothing that the first one left
  (in particular when the two readings are equal) the method returns the same decision and
  the same state as the one-snapshot implementation run at the first reading; and for
  \<open>t1 \<le> t2\<close> its decision is always the one-snapshot decision at the second reading.
\<close>

theorem record_matches_snapshot:
  "(sw_cleanup_window (sw_cleanup_window s u t1) u t2 = sw_cleanup_window s u t1 \<longrightarrow>
      sw_record_message s u t1 t2 = sw_record_snapshot s u t1) \<and>
   sw_record_message s u t t = sw_record_snapshot s u t \<and>
   (t1 \<le> t2 \<longrightarrow> fst (sw_record_message s u t1 t2) = fst (sw_record_snapshot s u t2))"
proof -
  let ?b1 = "t1 - of_int (window_size s)" and ?b2 = "t2 - of_int (window_size s)"
  have stable: "sw_record_message s u t1 t2 = sw_record_snapshot s u t1"
    if "sw_cleanup_window (sw_cleanup_window s u t1) u t2 = sw_cleanup_window s u t1"
  proof -
    from that have "users_requests (sw_cleanup_window (sw_cleanup_window s u t1) u t2) u
        = users_requests (sw_cleanup_window s u t1) u"
      by simp
    then have "pruned ?b2 (pruned ?b1 (users_requests s u)) = pruned ?b1 (users_requests s u)"
      by (simp add: sw_cleanup_window_eq)
    then show ?thesis
      by (simp add: sw_record_message_eq sw_record_snapshot_eq)
  qed
  have same: "sw_record_message s u t t = sw_record_snapshot s u t"
    by (simp add: sw_record_message_eq sw_record_snapshot_eq pruned_idem)
  have decision: "fst (sw_record_message s u t1 t2) = fst (sw_record_snapshot s u t2)"
    if "t1 \<le> t2"
    using that by (simp add: sw_record_message_eq sw_record_snapshot_eq pruned_twice Let_def)
  from stable same decision show ?thesis by blast
qed

theorem record_matches_snapshot_witness:
  "sw_cleanup_window (sw_cleanup_window
      \<lparr>window_size = 10, max_requests = 2, users_requests = [''1'' \<mapsto> [0, 4]]\<rparr> ''1'' 11) ''1'' 12
     = sw_cleanup_window
      \<lparr>window_size = 10, max_requests = 2, users_requests = [''1'' \<mapsto> [0, 4]]\<rparr> ''1'' 11 \<and>
   (11::real) \<le> 12 \<and>
   sw_record_message \<lparr>window_size = 10, max_requests = 2, users_requests = [''1'' \<mapsto> [0, 4]]\<rparr> ''1'' 11 12
     = sw_record_snapshot \<lparr>window_size = 10, max_requests = 2, users_requests = [''1'' \<mapsto> [0, 4]]\<rparr> ''1'' 11 \<and>
   fst (sw_record_message \<lparr>window_size = 10, max_requests = 2, users_requests = [''1'' \<mapsto> [0, 4]]\<rparr> ''1'' 11 12) \<and>
   users_requests (snd (sw_record_message
      \<lparr>window_size = 10, max_requests = 2, users_requests = [''1'' \<mapsto> [0, 4]]\<rparr> ''1'' 11 12)) ''1''
     = Some [4, 11]"
proof -
  let ?s = "\<lparr>window_size = 10, max_requests = 2, users_requests = [''1'' \<mapsto> [0::real, 4]]\<rparr>"
  note T = record_matches_snapshot [of ?s "''1''" 11 12 11]
  have h: "sw_cleanup_window (sw_cleanup_window ?s ''1'' 11) ''1'' 12 = sw_cleanup_window ?s ''1'' 11"
    by (simp add: sw_cleanup_window_def)
  have le: "(11::real) \<le> 12" by simp
  from T h have eq: "sw_record_message ?s ''1'' 11 12 = sw_record_snapshot ?s ''1'' 11"
    by blast
  have a: "fst (sw_record_message ?s ''1'' 11 12)"
    by (simp add: sw_record_message_def sw_can_send_message_def sw_cleanup_window_def)
  have b: "users_requests (snd (sw_record_message ?s ''1'' 11 12)) ''1'' = Some [4, 11]"
    by (simp add: sw_record_message_def sw_can_send_message_def sw_cleanup_window_def)
  from h le eq a b show ?thesis by blast
qed

text \<open>
  The claim as stated fails when a stored timestamp expires between the two readings:
  with window 10 and capacity 1, a user holding the timestamp 0 who calls at readings 9
  and 10 is admitted (the check at 10 has pruned 0) and the timestamp stored is 9. The
  one-snapshot implementation rejects at 9, and at 10 it stores 10.
\<close>

theorem record_snapshot_counterexample:
  "sw_record_message \<lparr>window_size = 10, max_requests = 1, users_requests = [''1'' \<mapsto> [0]]\<rparr> ''1'' 9 10
     \<noteq> sw_record_snapshot \<lparr>window_size = 10, max_requests = 1, users_requests = [''1'' \<mapsto> [0]]\<rparr> ''1'' 9 \<and>
   sw_record_message \<lparr>window_size = 10, max_requests = 1, users_requests = [''1'' \<mapsto> [0]]\<rparr> ''1'' 9 10
     \<noteq> sw_record_snapshot \<lparr>window_size = 10, max_requests = 1, users_requests = [''1'' \<mapsto> [0]]\<rparr> ''1'' 10 \<and>
   fst (sw_record_message \<lparr>window_size = 10, max_requests = 1, users_requests = [''1'' \<mapsto> [0]]\<rparr> ''1'' 9 10) \<and>
   users_requests (snd (sw_record_message
      \<lparr>window_size = 10, max_requests = 1, users_requests = [''1'' \<mapsto> [0]]\<rparr> ''1'' 9 10)) ''1'' = Some [9] \<and>
   \<not> fst (sw_record_snapshot \<lparr>window_size = 10, max_requests = 1, users_requests = [''1'' \<mapsto> [0]]\<rparr> ''1'' 9) \<and>
   users_requests (snd (sw_record_snapshot
      \<lparr>window_size = 10, max_requests = 1, users_requests = [''1'' \<mapsto> [0]]\<rparr> ''1'' 10)) ''1'' = Some [10]"
proof -
  let ?s = "\<lparr>window_size = 10, max_requests = 1, users_requests = [''1'' \<mapsto> [0::real]]\<rparr>"
  have a: "fst (sw_record_message ?s ''1'' 9 10)"
    by (simp add: sw_record_message_def sw_can_send_message_def sw_cleanup_window_def)
  have b: "users_requests (snd (sw_record_message ?s ''1'' 9 10)) ''1'' = Some [9]"
    by (simp add: sw_record_message_def sw_can_send_message_def sw_cleanup_window_def)
  have c: "\<not> fst (sw_record_snapshot ?s ''1'' 9)"
    by (simp add: sw_record_snapshot_def sw_cleanup_window_def)
  have d: "users_requests (snd (sw_record_snapshot ?s ''1'' 10)) ''1'' = Some [10]"
    by (simp add: sw_record_snapshot_def sw_cleanup_window_def)
  from a c have e: "sw_record_message ?s ''1'' 9 10 \<noteq> sw_record_snapshot ?s ''1'' 9"
    by auto
  from b d have f: "sw_record_message ?s ''1'' 9 10 \<noteq> sw_record_snapshot ?s ''1'' 10"
    by auto
  from a b c d e f show ?thesis by blast
qed

section \<open>The window after a cleanup pass\<close>



text \<open>
  The loop stops at the first timestamp still inside the window, so it relies on the
  sequence being ascending, which is what non-decreasing clock readings give. After a
  backward step of the clock (20, then 0) the sequence is \<open>[20, 0]\<close>, and a cleanup at 25
  stops at 20 and leaves the expired 0 behind it.
\<close>

lemma cleanup_window_backward_clock:
  "users_requests (sw_cleanup_window (sw_run (sw_init 10 2) [Record ''1'' 20 20, Record ''1'' 0 0])
      ''1'' 25) ''1'' = Some [20, 0]"
  by (simp add: sw_init_def sw_record_message_eq sw_cleanup_window_eq Let_def)

section \<open>The wait time never grows\<close>



section \<open>Capacity of the sliding window\<close>

text \<open>
  Claim C1. Take \<open>max_requests \<ge> 1\<close>, any state, and any run of \<^verbatim>\<open>record_message\<close> calls
  for one user whose clock readings all lie within one span of \<open>window_size\<close> seconds
  (any two readings are less than \<open>window_size\<close> apart). Then at most \<open>max_requests\<close> of
  the calls return true; once \<open>max_requests\<close> calls of the run have returned true, the
  next call returns false; and for a user with no entry the first \<open>max_requests\<close> calls
  return true and every later one, the \<open>(max_requests+1)\<close>-th first, returns false.
\<close>

theorem sliding_window_capacity:
  assumes "1 \<le> max_requests s" and "within_span start (window_size s) readings"
  shows "int (length (filter (\<lambda>ok. ok) (fst (sw_record_all s u readings)))) \<le> max_requests s \<and>
         (\<forall>i<length readings.
            int (length (filter (\<lambda>ok. ok) (take i (fst (sw_record_all s u readings))))) = max_requests s
            \<longrightarrow> \<not> fst (sw_record_all s u readings) ! i) \<and>
         (users_requests s u = None \<longrightarrow>
            (\<forall>i<length readings. fst (sw_record_all s u readings) ! i \<longleftrightarrow> int i < max_requests s))"
proof -
  have win: "entries (users_requests s u) = entries (users_requests s u) @ []" by simp
  have fresh: "\<forall>t\<in>set ([]::real list). start \<le> t" by simp
  note L = sw_record_all_in_span[OF win fresh assms(2,1)]
  from L assms(1) have total:
    "int (length (filter (\<lambda>ok. ok) (fst (sw_record_all s u readings)))) \<le> max_requests s"
    by simp
  from L have full: "\<forall>i<length readings.
      int (length (filter (\<lambda>ok. ok) (take i (fst (sw_record_all s u readings))))) = max_requests s
      \<longrightarrow> \<not> fst (sw_record_all s u readings) ! i"
    by auto
  have first: "\<forall>i<length readings. fst (sw_record_all s u readings) ! i \<longleftrightarrow> int i < max_requests s"
    if "users_requests s u = None"
  proof -
    from that have win0: "entries (users_requests s u) = [] @ []" by simp
    from sw_record_all_in_span[OF win0 fresh assms(2,1)] show ?thesis by simp
  qed
  from total full first show ?thesis by blast
qed

theorem sliding_window_capacity_witness:
  "(1::int) \<le> max_requests (sw_init 10 2) \<and>
   within_span 0 (window_size (sw_init 10 2)) [(0, 0), (4, 5), (9, 9)] \<and>
   users_requests (sw_init 10 2) ''1'' = None \<and>
   fst (sw_record_all (sw_init 10 2) ''1'' [(0, 0), (4, 5), (9, 9)]) = [True, True, False] \<and>
   int (length (filter (\<lambda>ok. ok) (fst (sw_record_all (sw_init 10 2) ''1'' [(0, 0), (4, 5), (9, 9)]))))
     \<le> max_requests (sw_init 10 2)"
proof -
  let ?rs = "[(0, 0), (4, 5), (9, 9)] :: (real \<times> real) list"
  have h1: "(1::int) \<le> max_requests (sw_init 10 2)" by (simp add: sw_init_def)
  have h2: "within_span 0 (window_size (sw_init 10 2)) ?rs"
    by (simp add: within_span_def sw_init_def)
  have h3: "users_requests (sw_init 10 2) ''1'' = None" by (simp add: sw_init_def)
  note T = sliding_window_capacity [OF h1 h2, of "''1''"]
  have run: "fst (sw_record_all (sw_init 10 2) ''1'' ?rs) = [True, True, False]"
    by (simp add: sw_init_def sw_record_message_eq Let_def)
  from T have "int (length (filter (\<lambda>ok. ok) (fst (sw_record_all (sw_init 10 2) ''1'' ?rs))))
      \<le> max_requests (sw_init 10 2)"
    by blast
  with h1 h2 h3 run show ?thesis by blast
qed

text \<open>
  The span is half-open: readings exactly \<open>window_size\<close> apart are not within one span,
  and the second of two such calls is admitted.
\<close>

lemma span_boundary_admitted:
  "fst (sw_record_all (sw_init 10 1) ''1'' [(0, 0), (10, 10)]) = [True, True]"
  by (simp add: sw_init_def sw_record_message_eq Let_def)

end
